theory Spec2Isabelle
  imports Complex_Main "HOL-Library.Char_ord" "HOL-Library.List_Lexorder"
begin

section \<open>Python values held by the settings records\<close>

text \<open>
  The fields of a \<^verbatim>\<open>collections.namedtuple\<close> instance hold arbitrary Python objects;
  the module \<^verbatim>\<open>google/cloud/pubsub_v1/types.py\<close> never inspects them. The values
  that occur in the module are unbounded integers and binary64 floats. A finite float is
  a rational number, so \<open>PyFloat\<close> carries the exact value of the double.
\<close>

datatype pyval = PyNone | PyInt int | PyFloat rat | PyStr string

text \<open>
  Python's \<^verbatim>\<open>==\<close> on these values: integers and floats compare by numeric value
  (\<^verbatim>\<open>1 == 1.0\<close>), values of unrelated types are unequal.
\<close>

fun py_eq :: "pyval \<Rightarrow> pyval \<Rightarrow> bool" where
  "py_eq PyNone PyNone = True"
| "py_eq (PyInt a) (PyInt b) = (a = b)"
| "py_eq (PyInt a) (PyFloat q) = (of_int a = q)"
| "py_eq (PyFloat q) (PyInt b) = (q = of_int b)"
| "py_eq (PyFloat p) (PyFloat q) = (p = q)"
| "py_eq (PyStr s) (PyStr t) = (s = t)"
| "py_eq _ _ = False"

text \<open>
  \<open>binary64_nearest q m e\<close>: the double with 53-bit significand \<open>m\<close> and exponent
  \<open>e\<close> is strictly closer to \<open>q\<close> than half a unit in the last place, so it is the
  double that the decimal literal denoting \<open>q\<close> is read as.
\<close>

definition binary64_nearest :: "rat \<Rightarrow> int \<Rightarrow> nat \<Rightarrow> bool" where
  "binary64_nearest q m e =
     (2 ^ 52 \<le> m \<and> m < 2 ^ 53 \<and> \<bar>q * 2 ^ e - of_int m\<bar> * 2 < 1)"

text \<open>The float literals of the module: \<^verbatim>\<open>0.05\<close>, \<^verbatim>\<open>0.8\<close> and \<^verbatim>\<open>0.01\<close>.\<close>

definition float_0_05 :: rat where
  "float_0_05 = of_int 7205759403792794 / 2 ^ 57"

definition float_0_8 :: rat where
  "float_0_8 = of_int 7205759403792794 / 2 ^ 53"

definition float_0_01 :: rat where
  "float_0_01 = of_int 5764607523034235 / 2 ^ 59"

section \<open>\<^verbatim>\<open>collections.namedtuple\<close> classes\<close>

text \<open>
  A namedtuple class is given by its type name, its field names in positional order and
  the tuple assigned to \<^verbatim>\<open>__new__.__defaults__\<close>. An instance is a tuple: the list
  of its items in field order.
\<close>

record namedtuple_class =
  typename :: string
  field_names :: "string list"
  new_defaults :: "pyval list"

type_synonym pytuple = "pyval list"

datatype py_error = TypeError | AttributeError | IndexError | ValueError | NameError

text \<open>
  \<^verbatim>\<open>__defaults__\<close> belongs to the last parameters of \<^verbatim>\<open>__new__\<close>: with \<open>n\<close>
  fields and \<open>k\<close> defaults, field \<open>i\<close> has a default when \<open>n - k \<le> i\<close>.
\<close>

definition default_of :: "namedtuple_class \<Rightarrow> nat \<Rightarrow> pyval option" where
  "default_of cls i =
     (let n = length (field_names cls); k = length (new_defaults cls) in
      if k \<le> n \<and> n - k \<le> i \<and> i < n then Some (new_defaults cls ! (i - (n - k))) else None)"

text \<open>
  Binding the keyword arguments of a call: a keyword that is not a parameter, or that
  names a parameter already bound, raises \<^verbatim>\<open>TypeError\<close>.
\<close>

fun bind_kwargs ::
  "string list \<Rightarrow> (string \<rightharpoonup> pyval) \<Rightarrow> (string \<times> pyval) list \<Rightarrow> py_error + (string \<rightharpoonup> pyval)"
where
  "bind_kwargs fs b [] = Inr b"
| "bind_kwargs fs b ((k, v) # kws) =
     (if k \<notin> set fs then Inl TypeError
      else if b k \<noteq> None then Inl TypeError
      else bind_kwargs fs (b(k \<mapsto> v)) kws)"

text \<open>
  Every parameter left unbound takes its default; one without a default raises
  \<^verbatim>\<open>TypeError\<close> (a missing required argument).
\<close>

fun fill_params ::
  "namedtuple_class \<Rightarrow> (string \<rightharpoonup> pyval) \<Rightarrow> nat \<Rightarrow> string list \<Rightarrow> py_error + pytuple"
where
  "fill_params cls b i [] = Inr []"
| "fill_params cls b i (f # fs) =
     (case (case b f of Some v \<Rightarrow> Some v | None \<Rightarrow> default_of cls i) of
        None \<Rightarrow> Inl TypeError
      | Some v \<Rightarrow>
          (case fill_params cls b (Suc i) fs of
             Inl e \<Rightarrow> Inl e
           | Inr vs \<Rightarrow> Inr (v # vs)))"

text \<open>
  The call \<^verbatim>\<open>cls(*args, **kwargs)\<close>: too many positional arguments raise
  \<^verbatim>\<open>TypeError\<close>; otherwise the positional arguments bind the first fields, the
  keywords bind by name, defaults fill the rest, and the generated \<^verbatim>\<open>__new__\<close>
  returns \<^verbatim>\<open>tuple.__new__(cls, (f1, ..., fn))\<close> without looking at the values.
\<close>

definition namedtuple_new ::
  "namedtuple_class \<Rightarrow> pyval list \<Rightarrow> (string \<times> pyval) list \<Rightarrow> py_error + pytuple"
where
  "namedtuple_new cls args kwargs =
     (if length (field_names cls) < length args then Inl TypeError
      else
        (case bind_kwargs (field_names cls) (map_of (zip (field_names cls) args)) kwargs of
           Inl e \<Rightarrow> Inl e
         | Inr b \<Rightarrow> fill_params cls b 0 (field_names cls)))"

text \<open>Position of a field name, as \<^verbatim>\<open>list.index\<close> finds it.\<close>

fun index_of :: "string \<Rightarrow> string list \<Rightarrow> nat option" where
  "index_of x [] = None"
| "index_of x (y # ys) =
     (if x = y then Some 0 else map_option Suc (index_of x ys))"

text \<open>
  Reading a field: each field name is a property over \<^verbatim>\<open>itemgetter(i)\<close>; any other
  attribute name raises \<^verbatim>\<open>AttributeError\<close>.
\<close>

definition getitem :: "pytuple \<Rightarrow> nat \<Rightarrow> py_error + pyval" where
  "getitem t i = (if i < length t then Inr (t ! i) else Inl IndexError)"

definition getattr :: "namedtuple_class \<Rightarrow> pytuple \<Rightarrow> string \<Rightarrow> py_error + pyval" where
  "getattr cls t name =
     (case index_of name (field_names cls) of
        None \<Rightarrow> Inl AttributeError
      | Some i \<Rightarrow> getitem t i)"

text \<open>Tuple comparison \<^verbatim>\<open>t1 == t2\<close>: same length and itemwise equal.\<close>

definition tuple_eq :: "pytuple \<Rightarrow> pytuple \<Rightarrow> bool" where
  "tuple_eq s t = list_all2 py_eq s t"

section \<open>The settings classes of \<^verbatim>\<open>types.py\<close>\<close>

definition BatchSettings :: namedtuple_class where
  "BatchSettings =
     \<lparr>typename = ''BatchSettings'',
      field_names = [''max_bytes'', ''max_latency'', ''max_messages''],
      new_defaults = [PyInt (1000 * 1000 * 10), PyFloat float_0_05, PyInt 1000]\<rparr>"

definition FlowControl :: namedtuple_class where
  "FlowControl =
     \<lparr>typename = ''FlowControl'',
      field_names = [''max_bytes'', ''max_messages'', ''resume_threshold'', ''max_requests'',
                ''max_request_batch_size'', ''max_request_batch_latency'',
                ''max_lease_duration''],
      new_defaults = [PyInt (100 * 1024 * 1024), PyInt 100, PyFloat float_0_8, PyInt 100,
                  PyInt 100, PyFloat float_0_01, PyInt (2 * 60 * 60)]\<rparr>"

text \<open>
  The shape of a call that binds: no more positional arguments than fields, no keyword
  twice, and every keyword names a field that no positional argument has bound. The
  values passed play no part in it.
\<close>

definition well_formed_call ::
  "namedtuple_class \<Rightarrow> pyval list \<Rightarrow> (string \<times> pyval) list \<Rightarrow> bool"
where
  "well_formed_call cls args kwargs =
     (length args \<le> length (field_names cls) \<and> distinct (map fst kwargs) \<and>
      set (map fst kwargs) \<subseteq> set (drop (length args) (field_names cls)))"

text \<open>
  The items a binding call yields: for each field, the argument given for it by position
  or by keyword, else the default at its position.
\<close>

definition bound_items ::
  "namedtuple_class \<Rightarrow> pyval list \<Rightarrow> (string \<times> pyval) list \<Rightarrow> pytuple"
where
  "bound_items cls args kwargs =
     map (\<lambda>(j, f).
            case (map_of (zip (field_names cls) args) ++ map_of kwargs) f of
              Some v \<Rightarrow> v
            | None \<Rightarrow> new_defaults cls ! j)
         (zip [0 ..< length (field_names cls)] (field_names cls))"

text \<open>
  What section 7 of the specification calls a valid configuration, in the specification's
  words: sizes, counts and durations are positive, \<open>resume_threshold\<close> lies in \<open>(0, 1]\<close>.
\<close>

definition spec_positive :: "pyval \<Rightarrow> bool" where
  "spec_positive v = (case v of PyInt n \<Rightarrow> 0 < n | PyFloat q \<Rightarrow> 0 < q | _ \<Rightarrow> False)"

definition spec_fraction :: "pyval \<Rightarrow> bool" where
  "spec_fraction v =
     (case v of PyInt n \<Rightarrow> 0 < n \<and> n \<le> 1 | PyFloat q \<Rightarrow> 0 < q \<and> q \<le> 1 | _ \<Rightarrow> False)"

definition spec_valid_BatchSettings :: "pytuple \<Rightarrow> bool" where
  "spec_valid_BatchSettings t =
     (case t of
        [max_bytes, max_latency, max_messages] \<Rightarrow>
          spec_positive max_bytes \<and> spec_positive max_latency \<and> spec_positive max_messages
      | _ \<Rightarrow> False)"

definition spec_valid_FlowControl :: "pytuple \<Rightarrow> bool" where
  "spec_valid_FlowControl t =
     (case t of
        [max_bytes, max_messages, resume_threshold, max_requests, max_request_batch_size,
         max_request_batch_latency, max_lease_duration] \<Rightarrow>
          spec_positive max_bytes \<and> spec_positive max_messages \<and>
          spec_fraction resume_threshold \<and> spec_positive max_requests \<and>
          spec_positive max_request_batch_size \<and> spec_positive max_request_batch_latency \<and>
          spec_positive max_lease_duration
      | _ \<Rightarrow> False)"

section \<open>Instances in a store\<close>

text \<open>
  Instances are objects: a store maps addresses to the objects allocated so far, each an
  instance with its class and its items. The operations are the ones a namedtuple class
  offers: the constructor call, \<^verbatim>\<open>obj.name\<close>, \<^verbatim>\<open>obj[i]\<close>,
  \<^verbatim>\<open>obj._replace(**kwargs)\<close>, and the assignments \<^verbatim>\<open>obj.name = v\<close>,
  \<^verbatim>\<open>obj[i] = v\<close> and \<^verbatim>\<open>del obj.name\<close>. The class has \<^verbatim>\<open>__slots__ = ()\<close> and
  read-only properties, and a tuple has no item assignment, so the three assignments raise.
\<close>

record py_object =
  obj_class :: namedtuple_class
  obj_items :: pytuple

record store =
  objects :: "nat \<rightharpoonup> py_object"
  next_id :: nat

datatype py_result = Ref nat | Val pyval

datatype operation =
    Construct namedtuple_class "pyval list" "(string \<times> pyval) list"
  | GetAttr nat string
  | GetItem nat nat
  | Replace nat "(string \<times> pyval) list"
  | SetAttr nat string pyval
  | SetItem nat nat pyval
  | DelAttr nat string

definition allocate :: "store \<Rightarrow> py_object \<Rightarrow> (py_error + py_result) \<times> store" where
  "allocate h obj =
     (Inr (Ref (next_id h)),
      h\<lparr>objects := (objects h)(next_id h \<mapsto> obj), next_id := Suc (next_id h)\<rparr>)"

text \<open>
  \<^verbatim>\<open>_replace\<close> is \<^verbatim>\<open>self._make(map(kwds.pop, field_names, self))\<close> followed by
  \<^verbatim>\<open>ValueError\<close> when a keyword is left over: it builds a new tuple and leaves
  \<^verbatim>\<open>self\<close> alone.
\<close>

definition replaced_items :: "py_object \<Rightarrow> (string \<times> pyval) list \<Rightarrow> pytuple" where
  "replaced_items obj kwargs =
     map (\<lambda>(f, v). case map_of kwargs f of Some w \<Rightarrow> w | None \<Rightarrow> v)
         (zip (field_names (obj_class obj)) (obj_items obj))"

text \<open>
  A reference always names a live object in Python, so the branch for an address that
  holds nothing is never taken by a program; it leaves the store unchanged.
\<close>

fun exec_op :: "store \<Rightarrow> operation \<Rightarrow> (py_error + py_result) \<times> store" where
  "exec_op h (Construct cls args kwargs) =
     (case namedtuple_new cls args kwargs of
        Inl e \<Rightarrow> (Inl e, h)
      | Inr t \<Rightarrow> allocate h \<lparr>obj_class = cls, obj_items = t\<rparr>)"
| "exec_op h (GetAttr a name) =
     (case objects h a of
        None \<Rightarrow> (Inl NameError, h)
      | Some obj \<Rightarrow>
          (case getattr (obj_class obj) (obj_items obj) name of
             Inl e \<Rightarrow> (Inl e, h)
           | Inr v \<Rightarrow> (Inr (Val v), h)))"
| "exec_op h (GetItem a i) =
     (case objects h a of
        None \<Rightarrow> (Inl NameError, h)
      | Some obj \<Rightarrow>
          (case getitem (obj_items obj) i of
             Inl e \<Rightarrow> (Inl e, h)
           | Inr v \<Rightarrow> (Inr (Val v), h)))"
| "exec_op h (Replace a kwargs) =
     (case objects h a of
        None \<Rightarrow> (Inl NameError, h)
      | Some obj \<Rightarrow>
          if set (map fst kwargs) \<subseteq> set (field_names (obj_class obj))
          then allocate h \<lparr>obj_class = obj_class obj, obj_items = replaced_items obj kwargs\<rparr>
          else (Inl ValueError, h))"
| "exec_op h (SetAttr a name v) =
     (case objects h a of
        None \<Rightarrow> (Inl NameError, h)
      | Some obj \<Rightarrow> (Inl AttributeError, h))"
| "exec_op h (SetItem a i v) =
     (case objects h a of
        None \<Rightarrow> (Inl NameError, h)
      | Some obj \<Rightarrow> (Inl TypeError, h))"
| "exec_op h (DelAttr a name) =
     (case objects h a of
        None \<Rightarrow> (Inl NameError, h)
      | Some obj \<Rightarrow> (Inl AttributeError, h))"

definition empty_store :: store where
  "empty_store = \<lparr>objects = Map.empty, next_id = 0\<rparr>"

text \<open>A program runs its operations in order; a raised exception is caught and the run goes on.\<close>

fun exec_ops :: "store \<Rightarrow> operation list \<Rightarrow> store" where
  "exec_ops h [] = h"
| "exec_ops h (x # xs) = exec_ops (snd (exec_op h x)) xs"

section \<open>The export list of \<^verbatim>\<open>types.py\<close>\<close>




datatype 'c module_attr = SettingsClass namedtuple_class | MessageClass 'c string

record 'c module_state =
  module_attrs :: "string \<rightharpoonup> 'c module_attr"
  names :: "string list"







section \<open>The flow-controlled receiver\<close>

text \<open>
  Modelled from the spec: the subscribe-side receiver that \<open>FlowControl\<close> parameterises
  is not among the sources; section 4.2 of the specification describes it. The limits are
  the fields \<open>max_bytes\<close>, \<open>max_messages\<close> and \<open>resume_threshold\<close> as numbers.
  The flow controller state (section 3) is the outstanding byte count, the outstanding
  message count and the state of the machine \<open>{RESUMED, PAUSED}\<close>; the outstanding
  messages are kept by ack id with their byte size. Transport failure and reconnection
  are outside the model.
\<close>

datatype flow_state = RESUMED | PAUSED

record flow_limits =
  fc_max_bytes :: int
  fc_max_messages :: int
  fc_resume_threshold :: rat

record receiver =
  outstanding :: "(nat \<times> nat) list"
  outstanding_bytes :: int
  outstanding_messages :: int
  flow :: flow_state

datatype receiver_event = Admit nat nat | Release nat

text \<open>
  Modelled from the spec: the receiver at the start (the flow-controlled receiver is not
  among the sources): "initial state RESUMED", nothing outstanding.
\<close>

definition new_receiver :: receiver where
  "new_receiver =
     \<lparr>outstanding = [], outstanding_bytes = 0, outstanding_messages = 0, flow = RESUMED\<rparr>"

text \<open>
  Modelled from the spec: admission (the flow-controlled receiver is not among the
  sources), in the words of 4.2. Algorithm: the receiver "pulls from the transport while
  not paused. On admitting a message, it increments both counters and registers an
  Outstanding Message ... If, after admission, either counter has reached its hard
  maximum, the Receiver transitions to PAUSED". Contract: the maxima are a "hard ceiling
  -- admission of a new message is refused/paused, never silently exceeded", and by
  section 7 exceeded capacity "is not an error but a state (PAUSED)" that "only delays
  admission": a message that would take a counter above its maximum is not admitted, and
  the receiver pauses.
\<close>

definition admit :: "flow_limits \<Rightarrow> nat \<Rightarrow> nat \<Rightarrow> receiver \<Rightarrow> receiver" where
  "admit fc ack_id nbytes r =
     (if flow r = PAUSED then r
      else
        let bytes = outstanding_bytes r + int nbytes;
            messages = outstanding_messages r + 1
        in if fc_max_bytes fc < bytes \<or> fc_max_messages fc < messages
           then r\<lparr>flow := PAUSED\<rparr>
           else
             \<lparr>outstanding = outstanding r @ [(ack_id, nbytes)],
              outstanding_bytes = bytes,
              outstanding_messages = messages,
              flow = (if fc_max_bytes fc \<le> bytes \<or> fc_max_messages fc \<le> messages
                      then PAUSED else RESUMED)\<rparr>)"

text \<open>
  Modelled from the spec: taking an outstanding message out by its ack id (the
  flow-controlled receiver is not among the sources); the result is its byte size and the
  remaining outstanding messages, or nothing when the id is not outstanding.
\<close>

fun remove_outstanding :: "nat \<Rightarrow> (nat \<times> nat) list \<Rightarrow> (nat \<times> (nat \<times> nat) list) option" where
  "remove_outstanding a [] = None"
| "remove_outstanding a ((i, n) # xs) =
     (if i = a then Some (n, xs)
      else
        (case remove_outstanding a xs of
           None \<Rightarrow> None
         | Some (m, ys) \<Rightarrow> Some (m, (i, n) # ys)))"

text \<open>
  Modelled from the spec: the low-water marks (the flow-controlled receiver is not among
  the sources), in the words of 4.2: "both counters have fallen to or below their resume
  thresholds (\<open>resume_threshold * max_bytes\<close>, \<open>resume_threshold * max_messages\<close>)".
\<close>

definition under_thresholds :: "flow_limits \<Rightarrow> int \<Rightarrow> int \<Rightarrow> bool" where
  "under_thresholds fc bytes messages =
     (of_int bytes \<le> fc_resume_threshold fc * of_int (fc_max_bytes fc) \<and>
      of_int messages \<le> fc_resume_threshold fc * of_int (fc_max_messages fc))"

text \<open>
  Modelled from the spec: release by ack, nack or expiry (the flow-controlled receiver is
  not among the sources), in the words of 4.2: "On any release ... the counters decrement;
  if paused and both counters have fallen to or below their resume thresholds ..., the
  Receiver transitions back to RESUMED". A message is released once: an id that is not
  outstanding changes nothing.
\<close>

definition release :: "flow_limits \<Rightarrow> nat \<Rightarrow> receiver \<Rightarrow> receiver" where
  "release fc ack_id r =
     (case remove_outstanding ack_id (outstanding r) of
        None \<Rightarrow> r
      | Some (nbytes, rest) \<Rightarrow>
          let bytes = outstanding_bytes r - int nbytes;
              messages = outstanding_messages r - 1
          in \<lparr>outstanding = rest,
              outstanding_bytes = bytes,
              outstanding_messages = messages,
              flow = (if flow r = PAUSED \<and> under_thresholds fc bytes messages
                      then RESUMED else flow r)\<rparr>)"

text \<open>
  Modelled from the spec: one event of the subscribe path and a run of events from the
  start (the flow-controlled receiver is not among the sources).
\<close>

fun receiver_step :: "flow_limits \<Rightarrow> receiver \<Rightarrow> receiver_event \<Rightarrow> receiver" where
  "receiver_step fc r (Admit ack_id nbytes) = admit fc ack_id nbytes r"
| "receiver_step fc r (Release ack_id) = release fc ack_id r"

definition receiver_run :: "flow_limits \<Rightarrow> receiver_event list \<Rightarrow> receiver" where
  "receiver_run fc evs = foldl (receiver_step fc) new_receiver evs"

text \<open>
  What every reachable state of the receiver satisfies: the counters are the totals of the
  outstanding messages, and both are within their maxima.
\<close>

definition rcv_inv :: "flow_limits \<Rightarrow> receiver \<Rightarrow> bool" where
  "rcv_inv fc r =
     (outstanding_bytes r = int (sum_list (map snd (outstanding r))) \<and>
      outstanding_messages r = int (length (outstanding r)) \<and>
      outstanding_bytes r \<le> fc_max_bytes fc \<and>
      outstanding_messages r \<le> fc_max_messages fc)"

section \<open>Float literals\<close>

lemma float_0_05_nearest: "binary64_nearest (5 / 100) 7205759403792794 57"
  by (simp add: binary64_nearest_def)

lemma float_0_8_nearest: "binary64_nearest (8 / 10) 7205759403792794 53"
  by (simp add: binary64_nearest_def)

lemma float_0_01_nearest: "binary64_nearest (1 / 100) 5764607523034235 59"
  by (simp add: binary64_nearest_def)

section \<open>Argument binding\<close>

lemma bind_kwargs_Inr:
  "bind_kwargs fs b kws = Inr b' \<longleftrightarrow>
     (distinct (map fst kws) \<and> set (map fst kws) \<subseteq> set fs \<and> set (map fst kws) \<inter> dom b = {}
      \<and> b' = b ++ map_of kws)"
proof (induction fs b kws rule: bind_kwargs.induct)
  case (1 fs b)
  then show ?case by auto
next
  case (2 fs b k v kws)
  show ?case
  proof (cases "k \<in> set fs \<and> b k = None")
    case False
    then show ?thesis by (auto simp: dom_def)
  next
    case True
    have IH: "bind_kwargs fs (b(k \<mapsto> v)) kws = Inr b' \<longleftrightarrow>
        (distinct (map fst kws) \<and> set (map fst kws) \<subseteq> set fs \<and>
         set (map fst kws) \<inter> dom (b(k \<mapsto> v)) = {} \<and> b' = (b(k \<mapsto> v)) ++ map_of kws)"
    proof -
      from True have "\<not> k \<notin> set fs" "\<not> b k \<noteq> None" by auto
      from "2.IH"[OF this] show ?thesis unfolding fun_upd_def .
    qed
    have A: "set (map fst kws) \<inter> dom (b(k \<mapsto> v)) = {} \<longleftrightarrow>
             k \<notin> set (map fst kws) \<and> set (map fst kws) \<inter> dom b = {}"
      by auto
    have B: "k \<notin> dom b" using True by auto
    have eq: "(b(k \<mapsto> v)) ++ map_of kws = b ++ map_of ((k, v) # kws)" if "k \<notin> set (map fst kws)"
    proof -
      have "k \<notin> dom (map_of kws)" using that by (simp add: dom_map_of_conv_image_fst)
      then show ?thesis by (simp add: map_add_upd_left del: fun_upd_apply)
    qed
    have step: "bind_kwargs fs b ((k, v) # kws) = bind_kwargs fs (b(k \<mapsto> v)) kws"
      using True by simp
    show ?thesis
    proof (cases "k \<in> set (map fst kws)")
      case True
      then show ?thesis unfolding step IH A by simp
    next
      case False
      have "map fst ((k, v) # kws) = k # map fst kws" by simp
      then show ?thesis unfolding step IH A using eq[OF False] B True False
        by (simp del: fun_upd_apply map_of.simps)
    qed
  qed
qed

lemma fill_params_Inr:
  "length (new_defaults cls) = length (field_names cls) \<Longrightarrow> i + length fs \<le> length (field_names cls) \<Longrightarrow>
   fill_params cls b i fs =
     Inr (map (\<lambda>(j, f). case b f of Some v \<Rightarrow> v | None \<Rightarrow> new_defaults cls ! j) (zip [i ..< i + length fs] fs))"
proof (induction fs arbitrary: i)
  case Nil
  then show ?case by simp
next
  case (Cons f fs)
  have d: "default_of cls i = Some (new_defaults cls ! i)"
    using Cons.prems by (simp add: default_of_def)
  have u: "[i ..< i + length (f # fs)] = i # [Suc i ..< Suc i + length fs]"
    by (simp add: upt_rec)
  show ?case unfolding u using Cons.IH[of "Suc i"] Cons.prems d
    by (auto split: option.splits)
qed

lemma bind_kwargs_Inl: "bind_kwargs fs b kws = Inl e \<Longrightarrow> e = TypeError"
  by (induction fs b kws rule: bind_kwargs.induct) (auto split: if_splits)

lemma fill_params_Inl: "fill_params cls b i fs = Inl e \<Longrightarrow> e = TypeError"
  by (induction fs arbitrary: i) (auto split: option.splits sum.splits)

lemma fill_params_len: "fill_params cls b i fs = Inr t \<Longrightarrow> length t = length fs"
  by (induction fs arbitrary: i t) (auto split: option.splits sum.splits)

lemma namedtuple_new_length:
  "namedtuple_new cls args kwargs = Inr t \<Longrightarrow> length t = length (field_names cls)"
  using fill_params_len by (auto simp: namedtuple_new_def split: if_splits sum.splits)

lemma namedtuple_new_Inl: "namedtuple_new cls args kwargs = Inl e \<Longrightarrow> e = TypeError"
  using bind_kwargs_Inl fill_params_Inl
  by (fastforce simp: namedtuple_new_def split: if_splits sum.splits)

lemma namedtuple_new_char:
  assumes "length (new_defaults cls) = length (field_names cls)" "distinct (field_names cls)"
  shows "namedtuple_new cls args kwargs =
     (if well_formed_call cls args kwargs then Inr (bound_items cls args kwargs)
      else Inl TypeError)"
proof (cases "length args \<le> length (field_names cls)")
  case False
  then show ?thesis by (simp add: namedtuple_new_def well_formed_call_def)
next
  case True
  let ?fs = "field_names cls"
  let ?b = "map_of (zip ?fs args)"
  have dom: "dom ?b = set (take (length args) ?fs)"
    using True by (simp add: dom_map_of_conv_image_fst map_fst_zip_take flip: set_map)
  have split: "set ?fs = set (take (length args) ?fs) \<union> set (drop (length args) ?fs)"
    by (metis append_take_drop_id set_append)
  have disj: "set (take (length args) ?fs) \<inter> set (drop (length args) ?fs) = {}"
    using assms(2) by (metis append_take_drop_id distinct_append)
  have wf: "well_formed_call cls args kwargs \<longleftrightarrow>
      (distinct (map fst kwargs) \<and> set (map fst kwargs) \<subseteq> set ?fs \<and>
       set (map fst kwargs) \<inter> dom ?b = {})"
    unfolding well_formed_call_def dom using True split disj by blast
  show ?thesis
  proof (cases "bind_kwargs ?fs ?b kwargs")
    case (Inl e)
    then have "\<not> well_formed_call cls args kwargs"
      unfolding wf using bind_kwargs_Inr[of ?fs ?b kwargs] by auto
    moreover have "e = TypeError" using Inl by (rule bind_kwargs_Inl)
    ultimately show ?thesis using Inl True by (simp add: namedtuple_new_def)
  next
    case (Inr b')
    then have w: "well_formed_call cls args kwargs" and b': "b' = ?b ++ map_of kwargs"
      unfolding wf using bind_kwargs_Inr[of ?fs ?b kwargs b'] by auto
    show ?thesis
      using Inr True w fill_params_Inr[OF assms(1), of 0 ?fs b']
      by (simp add: namedtuple_new_def bound_items_def b')
  qed
qed

lemma BatchSettings_shape:
  "length (new_defaults BatchSettings) = length (field_names BatchSettings)"
  "distinct (field_names BatchSettings)"
  by (simp_all add: BatchSettings_def)

lemma FlowControl_shape:
  "length (new_defaults FlowControl) = length (field_names FlowControl)"
  "distinct (field_names FlowControl)"
  by (simp_all add: FlowControl_def)

section \<open>Tuples and the store\<close>

lemma index_of_nth: "distinct fs \<Longrightarrow> i < length fs \<Longrightarrow> index_of (fs ! i) fs = Some i"
proof (induction fs arbitrary: i)
  case Nil then show ?case by simp
next
  case (Cons f fs)
  then show ?case by (cases i) auto
qed

lemma tuple_eq_by_fields:
  assumes d: "distinct (field_names cls)"
    and s: "namedtuple_new cls args1 kw1 = Inr s" and t: "namedtuple_new cls args2 kw2 = Inr t"
    and f: "\<forall>f \<in> set (field_names cls). \<exists>u v. getattr cls s f = Inr u \<and> getattr cls t f = Inr v \<and> py_eq u v"
  shows "tuple_eq s t"
proof -
  let ?fs = "field_names cls"
  have ls: "length s = length ?fs" and lt: "length t = length ?fs"
    using s t by (auto dest: namedtuple_new_length)
  have "py_eq (s ! i) (t ! i)" if "i < length ?fs" for i
  proof -
    have "?fs ! i \<in> set ?fs" using that by simp
    with f obtain u v where "getattr cls s (?fs ! i) = Inr u" "getattr cls t (?fs ! i) = Inr v" "py_eq u v"
      by blast
    then show ?thesis using that ls lt index_of_nth[OF d that]
      by (auto simp: getattr_def getitem_def)
  qed
  then show ?thesis unfolding tuple_eq_def using ls lt by (simp add: list_all2_conv_all_nth)
qed

lemma exec_op_preserves:
  "a < next_id h \<Longrightarrow> objects (snd (exec_op h x)) a = objects h a \<and> next_id h \<le> next_id (snd (exec_op h x))"
  by (cases x) (auto simp: allocate_def split: sum.splits option.splits)

lemma exec_ops_preserves:
  "a < next_id h \<Longrightarrow> objects (exec_ops h xs) a = objects h a \<and> next_id h \<le> next_id (exec_ops h xs)"
proof (induction xs arbitrary: h)
  case Nil
  then show ?case by simp
next
  case (Cons x xs)
  from exec_op_preserves[OF Cons.prems, of x]
  have 1: "objects (snd (exec_op h x)) a = objects h a" and 2: "next_id h \<le> next_id (snd (exec_op h x))"
    by auto
  from 2 Cons.prems have "a < next_id (snd (exec_op h x))" by simp
  from Cons.IH[OF this] 1 2 show ?case by simp
qed


section \<open>The names collected by the export loops\<close>







section \<open>The flow-controlled receiver: counters and the state machine\<close>

lemma remove_outstanding_Some:
  "remove_outstanding a xs = Some (n, ys) \<Longrightarrow>
     sum_list (map snd xs) = n + sum_list (map snd ys) \<and> length xs = Suc (length ys) \<and> a \<in> fst ` set xs"
  by (induction a xs arbitrary: ys rule: remove_outstanding.induct)
     (auto split: if_splits option.splits)

lemma remove_outstanding_None: "remove_outstanding a xs = None \<longleftrightarrow> a \<notin> fst ` set xs"
  by (induction a xs rule: remove_outstanding.induct) (auto split: option.splits)

lemma rcv_inv_admit: "rcv_inv fc r \<Longrightarrow> rcv_inv fc (admit fc a n r)"
  by (auto simp: rcv_inv_def admit_def Let_def)

lemma rcv_inv_release:
  assumes "rcv_inv fc r"
  shows "rcv_inv fc (release fc a r)"
proof (cases "remove_outstanding a (outstanding r)")
  case None
  then show ?thesis using assms by (simp add: release_def)
next
  case (Some p)
  obtain n ys where p: "p = (n, ys)" by (cases p)
  from remove_outstanding_Some[OF Some[unfolded p]]
  have s: "sum_list (map snd (outstanding r)) = n + sum_list (map snd ys)"
    and l: "length (outstanding r) = Suc (length ys)"
    by auto
  show ?thesis using assms Some p s l by (auto simp: release_def rcv_inv_def Let_def)
qed

lemma rcv_inv_foldl:
  "rcv_inv fc r \<Longrightarrow> rcv_inv fc (foldl (receiver_step fc) r evs)"
proof (induction evs arbitrary: r)
  case Nil
  then show ?case by simp
next
  case (Cons ev evs)
  show ?case
  proof (cases ev)
    case (Admit a n)
    then show ?thesis using Cons by (simp add: rcv_inv_admit)
  next
    case (Release a)
    then show ?thesis using Cons by (simp add: rcv_inv_release)
  qed
qed

lemma rcv_inv_run:
  "0 \<le> fc_max_bytes fc \<Longrightarrow> 0 \<le> fc_max_messages fc \<Longrightarrow> rcv_inv fc (receiver_run fc evs)"
  unfolding receiver_run_def
  by (rule rcv_inv_foldl) (simp add: rcv_inv_def new_receiver_def)

lemma resume_only_under:
  "flow r = PAUSED \<Longrightarrow>
   (flow (receiver_step fc r ev) = RESUMED \<longleftrightarrow>
      (\<exists>a. ev = Release a \<and> a \<in> fst ` set (outstanding r)) \<and>
      under_thresholds fc (outstanding_bytes (receiver_step fc r ev)) (outstanding_messages (receiver_step fc r ev)))"
proof (cases ev)
  case (Admit a n)
  assume "flow r = PAUSED"
  then show ?thesis using Admit by (simp add: admit_def)
next
  case (Release a)
  assume P: "flow r = PAUSED"
  show ?thesis
  proof (cases "remove_outstanding a (outstanding r)")
    case None
    then show ?thesis using P Release remove_outstanding_None[of a "outstanding r"] by (simp add: release_def)
  next
    case (Some p)
    then have "a \<in> fst ` set (outstanding r)" using remove_outstanding_None[of a "outstanding r"] by auto
    then show ?thesis using P Release Some by (auto simp: release_def Let_def split: prod.splits)
  qed
qed


text \<open>
  C7: for every sequence of admissions and releases, starting with nothing outstanding
  under maxima that are not negative, the outstanding byte counter and the outstanding
  message counter are never negative and never exceed \<open>max_bytes\<close> and
  \<open>max_messages\<close>; each counter is the total of the messages outstanding.
\<close>

theorem flow_counters_bounds:
  "0 \<le> fc_max_bytes fc \<Longrightarrow> 0 \<le> fc_max_messages fc \<Longrightarrow>
   0 \<le> outstanding_bytes (receiver_run fc evs) \<and>
   outstanding_bytes (receiver_run fc evs) \<le> fc_max_bytes fc \<and>
   0 \<le> outstanding_messages (receiver_run fc evs) \<and>
   outstanding_messages (receiver_run fc evs) \<le> fc_max_messages fc \<and>
   outstanding_bytes (receiver_run fc evs) =
     int (sum_list (map snd (outstanding (receiver_run fc evs)))) \<and>
   outstanding_messages (receiver_run fc evs) = int (length (outstanding (receiver_run fc evs)))"
proof -
  assume "0 \<le> fc_max_bytes fc" "0 \<le> fc_max_messages fc"
  then have inv: "rcv_inv fc (receiver_run fc evs)" by (rule rcv_inv_run)
  let ?r = "receiver_run fc evs"
  from inv have b: "outstanding_bytes ?r = int (sum_list (map snd (outstanding ?r)))"
    and m: "outstanding_messages ?r = int (length (outstanding ?r))"
    and lb: "outstanding_bytes ?r \<le> fc_max_bytes fc"
    and lm: "outstanding_messages ?r \<le> fc_max_messages fc"
    unfolding rcv_inv_def by blast+
  have "0 \<le> outstanding_bytes ?r" unfolding b by (rule of_nat_0_le_iff)
  moreover have "0 \<le> outstanding_messages ?r" unfolding m by (rule of_nat_0_le_iff)
  ultimately show ?thesis using b m lb lm by (intro conjI)
qed

theorem flow_counters_bounds_witness:
  "outstanding_bytes
     (receiver_run \<lparr>fc_max_bytes = 100, fc_max_messages = 10, fc_resume_threshold = 4 / 5\<rparr>
        [Admit 1 60, Admit 2 60]) = 60 \<and>
   flow (receiver_run \<lparr>fc_max_bytes = 100, fc_max_messages = 10, fc_resume_threshold = 4 / 5\<rparr>
        [Admit 1 60, Admit 2 60]) = PAUSED \<and>
   0 \<le> outstanding_bytes
     (receiver_run \<lparr>fc_max_bytes = 100, fc_max_messages = 10, fc_resume_threshold = 4 / 5\<rparr>
        [Admit 1 60, Admit 2 60, Release 1, Admit 3 30, Release 7]) \<and>
   outstanding_bytes
     (receiver_run \<lparr>fc_max_bytes = 100, fc_max_messages = 10, fc_resume_threshold = 4 / 5\<rparr>
        [Admit 1 60, Admit 2 60, Release 1, Admit 3 30, Release 7]) \<le> 100 \<and>
   outstanding_messages
     (receiver_run \<lparr>fc_max_bytes = 100, fc_max_messages = 10, fc_resume_threshold = 4 / 5\<rparr>
        [Admit 1 60, Admit 2 60, Release 1, Admit 3 30, Release 7]) \<le> 10"
proof -
  let ?fc = "\<lparr>fc_max_bytes = 100, fc_max_messages = 10, fc_resume_threshold = 4 / 5\<rparr>"
  let ?evs = "[Admit 1 60, Admit 2 60, Release 1, Admit 3 30, Release 7]"
  have b: "0 \<le> fc_max_bytes ?fc" and m: "0 \<le> fc_max_messages ?fc" by simp_all
  have refused: "receiver_run ?fc [Admit 1 60, Admit 2 60] =
      \<lparr>outstanding = [(1, 60)], outstanding_bytes = 60, outstanding_messages = 1,
       flow = PAUSED\<rparr>"
    by (simp add: receiver_run_def new_receiver_def admit_def)
  from flow_counters_bounds[OF b m, of ?evs] refused show ?thesis by simp
qed

text \<open>
  C8: a PAUSED receiver becomes RESUMED by an event exactly when the event releases an
  outstanding message and, after the release, the byte counter is at most
  \<open>resume_threshold * max_bytes\<close> and the message counter is at most
  \<open>resume_threshold * max_messages\<close>, both at once; if either counter is still above
  its threshold the receiver stays PAUSED.
\<close>

theorem resume_requires_both_thresholds:
  "flow r = PAUSED \<Longrightarrow>
   (flow (receiver_step fc r ev) = RESUMED \<longleftrightarrow>
      (\<exists>a. ev = Release a \<and> a \<in> fst ` set (outstanding r)) \<and>
      of_int (outstanding_bytes (receiver_step fc r ev))
        \<le> fc_resume_threshold fc * of_int (fc_max_bytes fc) \<and>
      of_int (outstanding_messages (receiver_step fc r ev))
        \<le> fc_resume_threshold fc * of_int (fc_max_messages fc)) \<and>
   (flow (receiver_step fc r ev) = RESUMED \<or> flow (receiver_step fc r ev) = PAUSED)"
proof -
  assume "flow r = PAUSED"
  from resume_only_under[OF this, of fc ev]
  have "flow (receiver_step fc r ev) = RESUMED \<longleftrightarrow>
      (\<exists>a. ev = Release a \<and> a \<in> fst ` set (outstanding r)) \<and>
      of_int (outstanding_bytes (receiver_step fc r ev))
        \<le> fc_resume_threshold fc * of_int (fc_max_bytes fc) \<and>
      of_int (outstanding_messages (receiver_step fc r ev))
        \<le> fc_resume_threshold fc * of_int (fc_max_messages fc)"
    unfolding under_thresholds_def by simp
  moreover have "flow (receiver_step fc r ev) = RESUMED \<or> flow (receiver_step fc r ev) = PAUSED"
    by (cases "flow (receiver_step fc r ev)") auto
  ultimately show ?thesis by blast
qed

theorem resume_requires_both_thresholds_witness:
  "flow (receiver_run \<lparr>fc_max_bytes = 1000, fc_max_messages = 10, fc_resume_threshold = 4 / 5\<rparr>
      [Admit 1 900, Admit 2 10, Admit 3 10, Admit 4 10, Admit 5 10, Admit 6 10, Admit 7 10,
       Admit 8 10, Admit 9 10, Admit 10 10, Release 2]) = PAUSED \<and>
   flow (receiver_step \<lparr>fc_max_bytes = 1000, fc_max_messages = 10, fc_resume_threshold = 4 / 5\<rparr>
      (receiver_run \<lparr>fc_max_bytes = 1000, fc_max_messages = 10, fc_resume_threshold = 4 / 5\<rparr>
        [Admit 1 900, Admit 2 10, Admit 3 10, Admit 4 10, Admit 5 10, Admit 6 10, Admit 7 10,
         Admit 8 10, Admit 9 10, Admit 10 10, Release 2])
      (Release 3)) = PAUSED \<and>
   flow (receiver_step \<lparr>fc_max_bytes = 1000, fc_max_messages = 10, fc_resume_threshold = 4 / 5\<rparr>
      (receiver_run \<lparr>fc_max_bytes = 1000, fc_max_messages = 10, fc_resume_threshold = 4 / 5\<rparr>
        [Admit 1 900, Admit 2 10, Admit 3 10, Admit 4 10, Admit 5 10, Admit 6 10, Admit 7 10,
         Admit 8 10, Admit 9 10, Admit 10 10, Release 2, Release 3])
      (Release 1)) = RESUMED"
proof -
  let ?fc = "\<lparr>fc_max_bytes = 1000, fc_max_messages = 10, fc_resume_threshold = 4 / 5\<rparr>"
  let ?E = "[Admit 1 900, Admit 2 10, Admit 3 10, Admit 4 10, Admit 5 10, Admit 6 10, Admit 7 10,
       Admit 8 10, Admit 9 10, Admit 10 10, Release 2]"
  let ?r = "\<lparr>outstanding = [(1, 900), (3, 10), (4, 10), (5, 10), (6, 10), (7, 10), (8, 10),
                (9, 10), (10, 10)],
             outstanding_bytes = 980, outstanding_messages = 9, flow = PAUSED\<rparr>"
  let ?r' = "\<lparr>outstanding = [(1, 900), (4, 10), (5, 10), (6, 10), (7, 10), (8, 10),
                (9, 10), (10, 10)],
             outstanding_bytes = 970, outstanding_messages = 8, flow = PAUSED\<rparr>"
  have r: "receiver_run ?fc ?E = ?r"
    by (simp add: receiver_run_def new_receiver_def admit_def release_def under_thresholds_def)
  have s3: "receiver_step ?fc ?r (Release 3) = ?r'"
    by (simp add: release_def under_thresholds_def)
  have r': "receiver_run ?fc (?E @ [Release 3]) = ?r'"
    using r s3 by (simp add: receiver_run_def)
  have s1: "receiver_step ?fc ?r' (Release 1) =
      \<lparr>outstanding = [(4, 10), (5, 10), (6, 10), (7, 10), (8, 10), (9, 10), (10, 10)],
       outstanding_bytes = 70, outstanding_messages = 7, flow = RESUMED\<rparr>"
    by (simp add: release_def under_thresholds_def)
  have p: "flow ?r = PAUSED" "flow ?r' = PAUSED" by simp_all
  have A: "flow (receiver_step ?fc ?r (Release 3)) = PAUSED"
    using resume_requires_both_thresholds[OF p(1), of ?fc "Release 3"] unfolding s3 by simp
  have B: "flow (receiver_step ?fc ?r' (Release 1)) = RESUMED"
    using resume_requires_both_thresholds[OF p(2), of ?fc "Release 1"] unfolding s1 by simp
  show ?thesis using A B r r' by simp
qed

section \<open>Construction of the settings records\<close>

text \<open>
  C1, as the specification states it, fails: construction with invalid thresholds
  returns a record. \<^verbatim>\<open>BatchSettings(0, -1.0, -5)\<close> and
  \<^verbatim>\<open>FlowControl(resume_threshold=2)\<close> are invalid in the specification's sense and
  both calls return the tuple of the values given.
\<close>

theorem invalid_settings_constructed:
  "\<not> spec_valid_BatchSettings [PyInt 0, PyFloat (- 1), PyInt (- 5)] \<and>
   namedtuple_new BatchSettings [PyInt 0, PyFloat (- 1), PyInt (- 5)] [] =
     Inr [PyInt 0, PyFloat (- 1), PyInt (- 5)] \<and>
   \<not> spec_valid_FlowControl
       [PyInt 104857600, PyInt 100, PyInt 2, PyInt 100, PyInt 100, PyFloat float_0_01, PyInt 7200] \<and>
   namedtuple_new FlowControl [] [(''resume_threshold'', PyInt 2)] =
     Inr [PyInt 104857600, PyInt 100, PyInt 2, PyInt 100, PyInt 100, PyFloat float_0_01, PyInt 7200]"
  by (simp add: namedtuple_new_def BatchSettings_def FlowControl_def default_of_def
      spec_valid_BatchSettings_def spec_valid_FlowControl_def spec_positive_def spec_fraction_def)


text \<open>
  C1, amended: the constructors of \<open>BatchSettings\<close> and \<open>FlowControl\<close> never look
  at the values. A call returns a record exactly when its argument list binds (no more
  positional arguments than fields, no keyword given twice, every keyword an unbound
  field), and the record holds the values as given, defaults elsewhere; any other call
  raises \<^verbatim>\<open>TypeError\<close>. In particular every triple and every 7-tuple of values, valid
  or not, is returned as a record.
\<close>

theorem settings_constructors_do_not_validate:
  "namedtuple_new BatchSettings args kwargs =
     (if well_formed_call BatchSettings args kwargs
      then Inr (bound_items BatchSettings args kwargs) else Inl TypeError) \<and>
   namedtuple_new FlowControl args' kwargs' =
     (if well_formed_call FlowControl args' kwargs'
      then Inr (bound_items FlowControl args' kwargs') else Inl TypeError) \<and>
   namedtuple_new BatchSettings [a, b, c] [] = Inr [a, b, c] \<and>
   namedtuple_new FlowControl [p, q, r, s, t, u, v] [] = Inr [p, q, r, s, t, u, v]"
proof -
  have "namedtuple_new BatchSettings [a, b, c] [] = Inr [a, b, c]"
    by (simp add: namedtuple_new_def BatchSettings_def default_of_def)
  moreover have "namedtuple_new FlowControl [p, q, r, s, t, u, v] [] = Inr [p, q, r, s, t, u, v]"
    by (simp add: namedtuple_new_def FlowControl_def default_of_def)
  ultimately show ?thesis
    using namedtuple_new_char[OF BatchSettings_shape] namedtuple_new_char[OF FlowControl_shape]
    by simp
qed


text \<open>
  C2: \<^verbatim>\<open>BatchSettings()\<close> has the defaults \<open>max_bytes = 10,000,000\<close>,
  \<open>max_latency = 0.05\<close> (the double the literal \<^verbatim>\<open>0.05\<close> denotes) and
  \<open>max_messages = 1000\<close>.
\<close>

theorem BatchSettings_defaults:
  "namedtuple_new BatchSettings [] [] = Inr [PyInt 10000000, PyFloat float_0_05, PyInt 1000] \<and>
   getattr BatchSettings [PyInt 10000000, PyFloat float_0_05, PyInt 1000] ''max_bytes'' = Inr (PyInt 10000000) \<and>
   getattr BatchSettings [PyInt 10000000, PyFloat float_0_05, PyInt 1000] ''max_latency'' = Inr (PyFloat float_0_05) \<and>
   getattr BatchSettings [PyInt 10000000, PyFloat float_0_05, PyInt 1000] ''max_messages'' = Inr (PyInt 1000) \<and>
   float_0_05 * 2 ^ 57 = of_int 7205759403792794 \<and>
   binary64_nearest (5 / 100) 7205759403792794 57"
  by (simp add: namedtuple_new_def BatchSettings_def default_of_def getattr_def getitem_def
      float_0_05_def binary64_nearest_def)


text \<open>
  C3: \<^verbatim>\<open>FlowControl()\<close> has the defaults \<open>max_bytes = 104,857,600\<close> (100 MiB),
  \<open>max_messages = 100\<close>, \<open>resume_threshold = 0.8\<close>, \<open>max_requests = 100\<close>,
  \<open>max_request_batch_size = 100\<close>, \<open>max_request_batch_latency = 0.01\<close> and
  \<open>max_lease_duration = 7200\<close>.
\<close>

theorem FlowControl_defaults:
  "namedtuple_new FlowControl [] [] =
     Inr [PyInt 104857600, PyInt 100, PyFloat float_0_8, PyInt 100, PyInt 100,
          PyFloat float_0_01, PyInt 7200] \<and>
   104857600 = (100 * 2 ^ 20 :: int) \<and>
   (\<exists>t. namedtuple_new FlowControl [] [] = Inr t \<and>
      getattr FlowControl t ''max_bytes'' = Inr (PyInt 104857600) \<and>
      getattr FlowControl t ''max_messages'' = Inr (PyInt 100) \<and>
      getattr FlowControl t ''resume_threshold'' = Inr (PyFloat float_0_8) \<and>
      getattr FlowControl t ''max_requests'' = Inr (PyInt 100) \<and>
      getattr FlowControl t ''max_request_batch_size'' = Inr (PyInt 100) \<and>
      getattr FlowControl t ''max_request_batch_latency'' = Inr (PyFloat float_0_01) \<and>
      getattr FlowControl t ''max_lease_duration'' = Inr (PyInt 7200)) \<and>
   float_0_8 * 2 ^ 53 = of_int 7205759403792794 \<and>
   binary64_nearest (8 / 10) 7205759403792794 53 \<and>
   float_0_01 * 2 ^ 59 = of_int 5764607523034235 \<and>
   binary64_nearest (1 / 100) 5764607523034235 59"
  by (simp add: namedtuple_new_def FlowControl_def default_of_def getattr_def getitem_def
      float_0_8_def float_0_01_def binary64_nearest_def)

text \<open>
  C4: each field of \<open>BatchSettings\<close> and of \<open>FlowControl\<close> can be set alone by keyword,
  to any value \<open>v\<close>; the record then holds \<open>v\<close> in that field and the default in
  every other field.
\<close>

theorem fields_independently_overridable:
  "namedtuple_new BatchSettings [] [(''max_bytes'', v)] =
     Inr [v, PyFloat float_0_05, PyInt 1000] \<and>
   namedtuple_new BatchSettings [] [(''max_latency'', v)] =
     Inr [PyInt 10000000, v, PyInt 1000] \<and>
   namedtuple_new BatchSettings [] [(''max_messages'', v)] =
     Inr [PyInt 10000000, PyFloat float_0_05, v] \<and>
   namedtuple_new FlowControl [] [(''max_bytes'', v)] =
     Inr [v, PyInt 100, PyFloat float_0_8, PyInt 100, PyInt 100, PyFloat float_0_01, PyInt 7200] \<and>
   namedtuple_new FlowControl [] [(''max_messages'', v)] =
     Inr [PyInt 104857600, v, PyFloat float_0_8, PyInt 100, PyInt 100, PyFloat float_0_01,
          PyInt 7200] \<and>
   namedtuple_new FlowControl [] [(''resume_threshold'', v)] =
     Inr [PyInt 104857600, PyInt 100, v, PyInt 100, PyInt 100, PyFloat float_0_01, PyInt 7200] \<and>
   namedtuple_new FlowControl [] [(''max_requests'', v)] =
     Inr [PyInt 104857600, PyInt 100, PyFloat float_0_8, v, PyInt 100, PyFloat float_0_01,
          PyInt 7200] \<and>
   namedtuple_new FlowControl [] [(''max_request_batch_size'', v)] =
     Inr [PyInt 104857600, PyInt 100, PyFloat float_0_8, PyInt 100, v, PyFloat float_0_01,
          PyInt 7200] \<and>
   namedtuple_new FlowControl [] [(''max_request_batch_latency'', v)] =
     Inr [PyInt 104857600, PyInt 100, PyFloat float_0_8, PyInt 100, PyInt 100, v, PyInt 7200] \<and>
   namedtuple_new FlowControl [] [(''max_lease_duration'', v)] =
     Inr [PyInt 104857600, PyInt 100, PyFloat float_0_8, PyInt 100, PyInt 100,
          PyFloat float_0_01, v]"
  by (simp add: namedtuple_new_def BatchSettings_def FlowControl_def default_of_def)

text \<open>
  C5: a constructed record never changes. Whatever operations run afterwards
  (constructions, reads, \<^verbatim>\<open>_replace\<close>, attempted assignments and deletions), the object
  at an address allocated before them is the same, and reading any of its fields gives the
  same result as before.
\<close>

theorem settings_records_immutable:
  "a < next_id h \<Longrightarrow>
   objects (exec_ops h xs) a = objects h a \<and>
   fst (exec_op (exec_ops h xs) (GetAttr a f)) = fst (exec_op h (GetAttr a f)) \<and>
   fst (exec_op (exec_ops h xs) (GetItem a i)) = fst (exec_op h (GetItem a i))"
proof -
  assume "a < next_id h"
  then have "objects (exec_ops h xs) a = objects h a"
    using exec_ops_preserves by blast
  then show ?thesis by (auto split: option.splits sum.splits)
qed

theorem settings_records_immutable_witness:
  "fst (exec_op
         (exec_ops (snd (exec_op empty_store (Construct BatchSettings [] [])))
            [SetAttr 0 ''max_bytes'' (PyInt 1), Replace 0 [(''max_bytes'', PyInt 1)],
             SetItem 0 0 (PyInt 1), DelAttr 0 ''max_bytes'',
             Construct BatchSettings [PyInt 1] []])
         (GetAttr 0 ''max_bytes'')) = Inr (Val (PyInt 10000000))"
proof -
  let ?h = "snd (exec_op empty_store (Construct BatchSettings [] []))"
  have h: "?h = \<lparr>objects = [0 \<mapsto> \<lparr>obj_class = BatchSettings,
                 obj_items = [PyInt 10000000, PyFloat float_0_05, PyInt 1000]\<rparr>], next_id = 1\<rparr>"
    by (simp add: empty_store_def namedtuple_new_def BatchSettings_def default_of_def
        allocate_def)
  have lt: "0 < next_id ?h" unfolding h by simp
  have r: "fst (exec_op ?h (GetAttr 0 ''max_bytes'')) = Inr (Val (PyInt 10000000))"
    unfolding h by (simp add: getattr_def getitem_def BatchSettings_def)
  let ?xs = "[SetAttr 0 ''max_bytes'' (PyInt 1), Replace 0 [(''max_bytes'', PyInt 1)],
             SetItem 0 0 (PyInt 1), DelAttr 0 ''max_bytes'',
             Construct BatchSettings [PyInt 1] []]"
  have "fst (exec_op (exec_ops ?h ?xs) (GetAttr 0 ''max_bytes'')) =
        fst (exec_op ?h (GetAttr 0 ''max_bytes''))"
    using settings_records_immutable[OF lt, of ?xs "''max_bytes''" 0] by (elim conjE)
  then show ?thesis using r by (rule trans)
qed



text \<open>
  C10: the positional order of the fields is the declared one, a record is the tuple of
  its field values in that order, each field name reads its position, and two records of
  one of the two classes whose fields are pairwise equal compare equal.
\<close>

theorem settings_tuple_semantics:
  "field_names BatchSettings = [''max_bytes'', ''max_latency'', ''max_messages''] \<and>
   field_names FlowControl =
     [''max_bytes'', ''max_messages'', ''resume_threshold'', ''max_requests'',
      ''max_request_batch_size'', ''max_request_batch_latency'', ''max_lease_duration''] \<and>
   namedtuple_new BatchSettings [a, b, c] [] = Inr [a, b, c] \<and>
   getattr BatchSettings [a, b, c] ''max_bytes'' = Inr a \<and>
   getattr BatchSettings [a, b, c] ''max_latency'' = Inr b \<and>
   getattr BatchSettings [a, b, c] ''max_messages'' = Inr c \<and>
   namedtuple_new FlowControl [p, q, r, s, t, u, v] [] = Inr [p, q, r, s, t, u, v] \<and>
   getattr FlowControl [p, q, r, s, t, u, v] ''max_bytes'' = Inr p \<and>
   getattr FlowControl [p, q, r, s, t, u, v] ''max_messages'' = Inr q \<and>
   getattr FlowControl [p, q, r, s, t, u, v] ''resume_threshold'' = Inr r \<and>
   getattr FlowControl [p, q, r, s, t, u, v] ''max_requests'' = Inr s \<and>
   getattr FlowControl [p, q, r, s, t, u, v] ''max_request_batch_size'' = Inr t \<and>
   getattr FlowControl [p, q, r, s, t, u, v] ''max_request_batch_latency'' = Inr u \<and>
   getattr FlowControl [p, q, r, s, t, u, v] ''max_lease_duration'' = Inr v \<and>
   (\<forall>cls \<in> {BatchSettings, FlowControl}. \<forall>args1 kw1 args2 kw2 x y.
      namedtuple_new cls args1 kw1 = Inr x \<longrightarrow>
      namedtuple_new cls args2 kw2 = Inr y \<longrightarrow>
      (\<forall>f \<in> set (field_names cls).
         \<exists>m n. getattr cls x f = Inr m \<and> getattr cls y f = Inr n \<and> py_eq m n) \<longrightarrow>
      tuple_eq x y)"
proof -
  have pos: "namedtuple_new BatchSettings [a, b, c] [] = Inr [a, b, c]"
    "namedtuple_new FlowControl [p, q, r, s, t, u, v] [] = Inr [p, q, r, s, t, u, v]"
    by (simp_all add: namedtuple_new_def BatchSettings_def FlowControl_def default_of_def)
  have get: "getattr BatchSettings [a, b, c] ''max_bytes'' = Inr a"
    "getattr BatchSettings [a, b, c] ''max_latency'' = Inr b"
    "getattr BatchSettings [a, b, c] ''max_messages'' = Inr c"
    "getattr FlowControl [p, q, r, s, t, u, v] ''max_bytes'' = Inr p"
    "getattr FlowControl [p, q, r, s, t, u, v] ''max_messages'' = Inr q"
    "getattr FlowControl [p, q, r, s, t, u, v] ''resume_threshold'' = Inr r"
    "getattr FlowControl [p, q, r, s, t, u, v] ''max_requests'' = Inr s"
    "getattr FlowControl [p, q, r, s, t, u, v] ''max_request_batch_size'' = Inr t"
    "getattr FlowControl [p, q, r, s, t, u, v] ''max_request_batch_latency'' = Inr u"
    "getattr FlowControl [p, q, r, s, t, u, v] ''max_lease_duration'' = Inr v"
    by (simp_all add: getattr_def getitem_def BatchSettings_def FlowControl_def)
  have names: "field_names BatchSettings = [''max_bytes'', ''max_latency'', ''max_messages'']"
    "field_names FlowControl =
     [''max_bytes'', ''max_messages'', ''resume_threshold'', ''max_requests'',
      ''max_request_batch_size'', ''max_request_batch_latency'', ''max_lease_duration'']"
    by (simp_all add: BatchSettings_def FlowControl_def)
  have eq: "\<forall>cls \<in> {BatchSettings, FlowControl}. \<forall>args1 kw1 args2 kw2 x y.
      namedtuple_new cls args1 kw1 = Inr x \<longrightarrow>
      namedtuple_new cls args2 kw2 = Inr y \<longrightarrow>
      (\<forall>f \<in> set (field_names cls).
         \<exists>m n. getattr cls x f = Inr m \<and> getattr cls y f = Inr n \<and> py_eq m n) \<longrightarrow>
      tuple_eq x y"
    using tuple_eq_by_fields BatchSettings_shape(2) FlowControl_shape(2) by blast
  from pos get names eq show ?thesis by (intro conjI)
qed

theorem settings_tuple_semantics_witness:
  "namedtuple_new BatchSettings [PyInt 1] [] = Inr [PyInt 1, PyFloat float_0_05, PyInt 1000] \<and>
   namedtuple_new BatchSettings [] [(''max_bytes'', PyFloat 1)] =
     Inr [PyFloat 1, PyFloat float_0_05, PyInt 1000] \<and>
   tuple_eq [PyInt 1, PyFloat float_0_05, PyInt 1000] [PyFloat 1, PyFloat float_0_05, PyInt 1000]"
proof -
  let ?x = "[PyInt 1, PyFloat float_0_05, PyInt 1000]"
  let ?y = "[PyFloat 1, PyFloat float_0_05, PyInt 1000]"
  have x: "namedtuple_new BatchSettings [PyInt 1] [] = Inr ?x"
    by (simp add: namedtuple_new_def BatchSettings_def default_of_def)
  have y: "namedtuple_new BatchSettings [] [(''max_bytes'', PyFloat 1)] = Inr ?y"
    by (simp add: namedtuple_new_def BatchSettings_def default_of_def)
  have f: "\<forall>f \<in> set (field_names BatchSettings).
      \<exists>m n. getattr BatchSettings ?x f = Inr m \<and> getattr BatchSettings ?y f = Inr n \<and> py_eq m n"
    by (simp add: getattr_def getitem_def BatchSettings_def)
  have "\<forall>cls \<in> {BatchSettings, FlowControl}. \<forall>args1 kw1 args2 kw2 x y.
      namedtuple_new cls args1 kw1 = Inr x \<longrightarrow>
      namedtuple_new cls args2 kw2 = Inr y \<longrightarrow>
      (\<forall>f \<in> set (field_names cls).
         \<exists>m n. getattr cls x f = Inr m \<and> getattr cls y f = Inr n \<and> py_eq m n) \<longrightarrow>
      tuple_eq x y"
    using settings_tuple_semantics by blast
  then have "tuple_eq ?x ?y" using x y f by blast
  with x y show ?thesis by blast
qed

end
